theory Spec2Isabelle
  imports Main "HOL-Library.Word"
begin

section \<open>The Go library as package fsgc uses it\<close>

subsection \<open>Durations and instants (package time)\<close>

text \<open>
  \<^verbatim>\<open>time.Duration\<close> is a signed 64-bit count of nanoseconds; its order is the signed
  one, read with \<open>sint\<close>. An instant is a wall-clock reading in nanoseconds; the
  distance between two instants need not fit a duration.
\<close>

type_synonym duration = "64 word"
type_synonym time = int

definition Nanosecond :: duration where
  "Nanosecond = 1"

definition Microsecond :: duration where
  "Microsecond = 1000 * Nanosecond"

definition Millisecond :: duration where
  "Millisecond = 1000 * Microsecond"

definition Second :: duration where
  "Second = 1000 * Millisecond"

definition Minute :: duration where
  "Minute = 60 * Second"

definition Hour :: duration where
  "Hour = 60 * Minute"

definition maxDuration :: int where
  "maxDuration = 2 ^ 63 - 1"

definition minDuration :: int where
  "minDuration = - (2 ^ 63)"

text \<open>
  \<^verbatim>\<open>t.Sub(u)\<close>: the duration \<open>t - u\<close>; when the difference does not fit, the largest
  (or smallest) duration is returned.
\<close>

definition time_Sub :: "time \<Rightarrow> time \<Rightarrow> duration" where
  "time_Sub t u =
     (let d = t - u
      in if maxDuration < d then word_of_int maxDuration
         else if d < minDuration then word_of_int minDuration
         else word_of_int d)"

subsection \<open>Strings\<close>

text \<open>\<^verbatim>\<open>strings.HasPrefix(s, prefix)\<close> is
  \<^verbatim>\<open>len(s) >= len(prefix) && s[0:len(prefix)] == prefix\<close>.\<close>

definition HasPrefix :: "string \<Rightarrow> string \<Rightarrow> bool" where
  "HasPrefix s pre = (length pre \<le> length s \<and> take (length pre) s = pre)"

subsection \<open>Files and directories (package os)\<close>

datatype os_error = ErrNotExist | ErrPermission | ErrNotDir | ErrIO

text \<open>The type bits of \<^verbatim>\<open>os.FileMode\<close>: none set for a regular file.\<close>

datatype file_mode = ModeRegular | ModeDir | ModeSymlink | ModeNamedPipe | ModeSocket | ModeDevice

text \<open>
  What the file system keeps for one directory entry: its type and modification time, and
  whether removing it fails (and with what).
\<close>

record node =
  n_mode :: file_mode
  n_modtime :: time
  n_remove_err :: "os_error option"

text \<open>
  A directory: whether opening or listing it fails, the names in directory order, and the
  entries by name. A name of the listing without an entry has vanished and is not listed.
\<close>

record directory =
  open_err :: "os_error option"
  readdir_err :: "os_error option"
  listing :: "string list"
  files :: "string \<rightharpoonup> node"

text \<open>\<^verbatim>\<open>os.FileInfo\<close>, as \<^verbatim>\<open>Readdir\<close> returns it (an \<^verbatim>\<open>lstat\<close> of the entry).\<close>

record file_info =
  fi_name :: string
  fi_mode :: file_mode
  fi_modtime :: time

definition Name :: "file_info \<Rightarrow> string" where
  "Name fi = fi_name fi"

definition IsDir :: "file_info \<Rightarrow> bool" where
  "IsDir fi = (fi_mode fi = ModeDir)"


definition ModTime :: "file_info \<Rightarrow> time" where
  "ModTime fi = fi_modtime fi"

text \<open>
  \<^verbatim>\<open>filepath.Join(dir, name)\<close> for a base name that \<^verbatim>\<open>Readdir\<close> returned names the
  entry \<open>name\<close> of the directory \<open>dir\<close>; the joined path is kept as that pair.
\<close>

type_synonym joined_path = "string \<times> string"

definition filepath_Join :: "string \<Rightarrow> string \<Rightarrow> joined_path" where
  "filepath_Join d n = (d, n)"

subsection \<open>Tickers and goroutines (package time, the runtime)\<close>

text \<open>
  A \<^verbatim>\<open>time.Ticker\<close>: its period, whether \<^verbatim>\<open>Stop\<close> was called on it, and whether its
  channel \<^verbatim>\<open>C\<close> is closed. A \<^verbatim>\<open>*time.Ticker\<close> is an index into the list of tickers
  ever made.
\<close>

record ticker_obj =
  t_period :: duration
  t_stopped :: bool
  chan_closed :: bool

text \<open>
  A goroutine started by \<^verbatim>\<open>go func() { for _ = range c { ... } }()\<close> has not yet
  evaluated \<open>c\<close> (\<open>Spawned\<close>), or is receiving from the channel of ticker \<open>c\<close>
  (\<open>Ranging c\<close>), or has ended. It leaves the loop, and ends, only once that channel is
  closed.
\<close>

datatype goroutine = Spawned | Ranging nat | Finished

subsection \<open>The world outside the collector\<close>

record world =
  fs :: "string \<rightharpoonup> directory"
  clock :: time
  latency :: nat
  opened :: "string list"
  removals :: "joined_path list"
  tickers :: "ticker_obj list"
  goroutines :: "goroutine list"

text \<open>Every call that reaches the disk takes \<open>latency\<close> nanoseconds of wall-clock time.\<close>

definition elapse :: "world \<Rightarrow> world" where
  "elapse w = w\<lparr>clock := clock w + int (latency w)\<rparr>"

text \<open>
  \<^verbatim>\<open>os.Open(name)\<close>: every call is recorded in \<open>opened\<close>; the handle is the path
  opened.
\<close>

definition os_Open :: "string \<Rightarrow> world \<Rightarrow> (os_error + string) \<times> world" where
  "os_Open p w =
     (let w1 = elapse (w\<lparr>opened := opened w @ [p]\<rparr>)
      in case fs w p of
           None \<Rightarrow> (Inl ErrNotExist, w1)
         | Some D \<Rightarrow> (case open_err D of
                       Some e \<Rightarrow> (Inl e, w1)
                     | None \<Rightarrow> (Inr p, w1)))"

definition stat :: "string \<Rightarrow> node \<Rightarrow> file_info" where
  "stat n nd = \<lparr>fi_name = n, fi_mode = n_mode nd, fi_modtime = n_modtime nd\<rparr>"

text \<open>\<^verbatim>\<open>f.Readdir(0)\<close>: all entries in directory order, or an error and no entries.\<close>

definition file_Readdir :: "string \<Rightarrow> world \<Rightarrow> (os_error + file_info list) \<times> world" where
  "file_Readdir f w =
     (case fs w f of
        None \<Rightarrow> (Inl ErrNotExist, elapse w)
      | Some D \<Rightarrow> (case readdir_err D of
                    Some e \<Rightarrow> (Inl e, elapse w)
                  | None \<Rightarrow>
                      (Inr (List.map_filter (\<lambda>n. map_option (stat n) (files D n)) (listing D)),
                       elapse w)))"

definition time_Now :: "world \<Rightarrow> time" where
  "time_Now w = clock w"

text \<open>
  \<^verbatim>\<open>os.Remove(path)\<close>: every call is recorded in \<open>removals\<close>; the entry goes away unless
  it is missing or its removal fails.
\<close>

definition os_Remove :: "joined_path \<Rightarrow> world \<Rightarrow> os_error option \<times> world" where
  "os_Remove p w =
     (let w1 = elapse (w\<lparr>removals := removals w @ [p]\<rparr>)
      in case fs w (fst p) of
           None \<Rightarrow> (Some ErrNotExist, w1)
         | Some D \<Rightarrow>
             (case files D (snd p) of
                None \<Rightarrow> (Some ErrNotExist, w1)
              | Some nd \<Rightarrow>
                  (case n_remove_err nd of
                     Some e \<Rightarrow> (Some e, w1)
                   | None \<Rightarrow>
                       (None, w1\<lparr>fs := (fs w)(fst p \<mapsto> D\<lparr>files := (files D)(snd p := None)\<rparr>)\<rparr>))))"

text \<open>
  \<^verbatim>\<open>time.NewTicker(d)\<close> panics unless \<open>d\<close> is positive; otherwise it makes a running
  ticker with an open channel and returns its address.
\<close>

definition time_NewTicker :: "duration \<Rightarrow> world \<Rightarrow> (nat \<times> world) option" where
  "time_NewTicker d w =
     (if sint d \<le> 0 then None
      else Some (length (tickers w),
                 w\<lparr>tickers := tickers w @ [\<lparr>t_period = d, t_stopped = False, chan_closed = False\<rparr>]\<rparr>))"

text \<open>\<^verbatim>\<open>t.Stop()\<close>: no more ticks will be sent; the channel is not closed.\<close>

definition ticker_Stop :: "nat \<Rightarrow> world \<Rightarrow> world" where
  "ticker_Stop t w =
     (if t < length (tickers w)
      then w\<lparr>tickers := (tickers w)[t := (tickers w ! t)\<lparr>t_stopped := True\<rparr>]\<rparr>
      else w)"

section \<open>Package fsgc\<close>

text \<open>
  \<^verbatim>\<open>type GC struct\<close>. The mutex is held (\<open>True\<close>) or free; \<open>ticker\<close> is \<open>None\<close> for
  \<^verbatim>\<open>nil\<close>.
\<close>

record GC =
  mu :: bool
  dir :: string
  maxAge :: duration
  interval :: duration
  ticker :: "nat option"

definition DefaultMaxAge :: duration where
  "DefaultMaxAge = 7 * 24 * Hour"

definition DefaultInterval :: duration where
  "DefaultInterval = 1 * Hour"

text \<open>
  A call returns a value, panics, or blocks for ever (on a mutex that is never released).
\<close>

datatype 'a outcome = Returns (returned: 'a) | Panics | Blocks

text \<open>\<^verbatim>\<open>gc.mu.Lock()\<close> waits for the mutex to be free; \<^verbatim>\<open>gc.mu.Unlock()\<close> frees it.\<close>

definition mu_Lock :: "GC \<Rightarrow> GC option" where
  "mu_Lock gc = (if mu gc then None else Some (gc\<lparr>mu := True\<rparr>))"

definition mu_Unlock :: "GC \<Rightarrow> GC" where
  "mu_Unlock gc = gc\<lparr>mu := False\<rparr>"

definition New :: "string \<Rightarrow> GC" where
  "New d = \<lparr>mu = False, dir = d, maxAge = DefaultMaxAge, interval = DefaultInterval,
            ticker = None\<rparr>"

definition MaxAge :: "duration \<Rightarrow> GC \<Rightarrow> GC outcome" where
  "MaxAge dur gc =
     (case mu_Lock gc of
        None \<Rightarrow> Blocks
      | Some gc1 \<Rightarrow> Returns (mu_Unlock (gc1\<lparr>maxAge := dur\<rparr>)))"

definition Interval :: "duration \<Rightarrow> GC \<Rightarrow> GC outcome" where
  "Interval dur gc =
     (case mu_Lock gc of
        None \<Rightarrow> Blocks
      | Some gc1 \<Rightarrow> Returns (mu_Unlock (gc1\<lparr>interval := dur\<rparr>)))"

text \<open>
  The loop of \<^verbatim>\<open>Collect\<close> over the listing, with \<open>now\<close> taken before it. The error of
  \<^verbatim>\<open>os.Remove\<close> is dropped.
\<close>

fun sweep :: "GC \<Rightarrow> time \<Rightarrow> file_info list \<Rightarrow> world \<Rightarrow> world" where
  "sweep gc now [] w = w"
| "sweep gc now (fi # fis) w =
     (if IsDir fi \<or> \<not> HasPrefix (Name fi) ''session_'' then sweep gc now fis w
      else if sint (maxAge gc) < sint (time_Sub now (ModTime fi))
           then sweep gc now fis (snd (os_Remove (filepath_Join (dir gc) (Name fi)) w))
           else sweep gc now fis w)"

text \<open>
  \<^verbatim>\<open>Collect\<close>, named \<open>Collect_gc\<close> here, as \<open>Collect\<close> is the set comprehension of HOL.
  The result is the error returned (\<open>None\<close> for \<^verbatim>\<open>nil\<close>), the collector after the
  deferred \<^verbatim>\<open>Unlock\<close>, and the world. The deferred \<^verbatim>\<open>f.Close()\<close> changes nothing that
  the world records.
\<close>

definition Collect_gc :: "GC \<Rightarrow> world \<Rightarrow> (os_error option \<times> GC \<times> world) outcome" where
  "Collect_gc gc w =
     (case mu_Lock gc of
        None \<Rightarrow> Blocks
      | Some gc1 \<Rightarrow>
          (case os_Open (dir gc1) w of
             (Inl err, w1) \<Rightarrow> Returns (Some err, mu_Unlock gc1, w1)
           | (Inr f, w1) \<Rightarrow>
               (case file_Readdir f w1 of
                  (Inl err, w2) \<Rightarrow> Returns (Some err, mu_Unlock gc1, w2)
                | (Inr fis, w2) \<Rightarrow>
                    Returns (None, mu_Unlock gc1, sweep gc1 (time_Now w2) fis w2))))"


text \<open>
  \<^verbatim>\<open>go func() { for _ = range gc.ticker.C { gc.Collect() } }()\<close>: a new goroutine, which
  reads \<^verbatim>\<open>gc.ticker\<close> only when it first runs.
\<close>

definition go_loop :: "world \<Rightarrow> world" where
  "go_loop w = w\<lparr>goroutines := goroutines w @ [Spawned]\<rparr>"

definition Start :: "GC \<Rightarrow> world \<Rightarrow> (GC \<times> world) outcome" where
  "Start gc w =
     (case mu_Lock gc of
        None \<Rightarrow> Blocks
      | Some gc1 \<Rightarrow>
          (case ticker gc1 of
             Some t \<Rightarrow> Returns (mu_Unlock gc1, w)
           | None \<Rightarrow>
               (case time_NewTicker (interval gc1) w of
                  None \<Rightarrow> Panics
                | Some (t, w1) \<Rightarrow> Returns (mu_Unlock (gc1\<lparr>ticker := Some t\<rparr>), go_loop w1))))"

definition Stop :: "GC \<Rightarrow> world \<Rightarrow> (GC \<times> world) outcome" where
  "Stop gc w =
     (case mu_Lock gc of
        None \<Rightarrow> Blocks
      | Some gc1 \<Rightarrow>
          (case ticker gc1 of
             None \<Rightarrow> Returns (mu_Unlock gc1, w)
           | Some t \<Rightarrow> Returns (mu_Unlock (gc1\<lparr>ticker := None\<rparr>), ticker_Stop t w)))"

section \<open>The collector at run time\<close>

text \<open>
  What can happen to one collector: a call of one of its methods (each holds the mutex
  from entry to return, so calls do not overlap), the timer of a ticker coming due
  (\<open>Fire\<close>), and the scheduler running a goroutine (\<open>Resume\<close>).

  A ticker that is not stopped sends its tick to a goroutine receiving from its channel,
  which then runs the loop body \<^verbatim>\<open>gc.Collect()\<close> and drops the error; with no receiver
  the tick is dropped. A goroutine that runs for the first time evaluates
  \<^verbatim>\<open>gc.ticker.C\<close>, which panics when \<^verbatim>\<open>gc.ticker\<close> is \<^verbatim>\<open>nil\<close>; one in its loop ends
  when its channel is closed and waits otherwise.
\<close>

datatype event =
    Call_MaxAge duration
  | Call_Interval duration
  | Call_Start
  | Call_Stop
  | Call_Collect
  | Fire nat
  | Resume nat

definition receiving :: "nat \<Rightarrow> world \<Rightarrow> bool" where
  "receiving t w = (Ranging t \<in> set (goroutines w))"

definition resume :: "nat \<Rightarrow> GC \<Rightarrow> world \<Rightarrow> (GC \<times> world) outcome" where
  "resume g gc w =
     (if g < length (goroutines w)
      then (case goroutines w ! g of
              Spawned \<Rightarrow>
                (case ticker gc of
                   None \<Rightarrow> Panics
                 | Some t \<Rightarrow> Returns (gc, w\<lparr>goroutines := (goroutines w)[g := Ranging t]\<rparr>))
            | Ranging t \<Rightarrow>
                (if t < length (tickers w) \<and> chan_closed (tickers w ! t)
                 then Returns (gc, w\<lparr>goroutines := (goroutines w)[g := Finished]\<rparr>)
                 else Returns (gc, w))
            | Finished \<Rightarrow> Returns (gc, w))
      else Returns (gc, w))"

fun step :: "event \<Rightarrow> GC \<times> world \<Rightarrow> (GC \<times> world) outcome" where
  "step (Call_MaxAge d) (gc, w) = map_outcome (\<lambda>gc'. (gc', w)) (MaxAge d gc)"
| "step (Call_Interval d) (gc, w) = map_outcome (\<lambda>gc'. (gc', w)) (Interval d gc)"
| "step Call_Start (gc, w) = Start gc w"
| "step Call_Stop (gc, w) = Stop gc w"
| "step Call_Collect (gc, w) = map_outcome snd (Collect_gc gc w)"
| "step (Fire t) (gc, w) =
     (if t < length (tickers w) \<and> \<not> t_stopped (tickers w ! t) \<and> receiving t w
      then map_outcome snd (Collect_gc gc w)
      else Returns (gc, w))"
| "step (Resume g) (gc, w) = resume g gc w"

text \<open>A run stops at the first event that panics or blocks.\<close>

fun run :: "event list \<Rightarrow> GC \<times> world \<Rightarrow> (GC \<times> world) outcome" where
  "run [] s = Returns s"
| "run (e # es) s = (case step e s of Returns s' \<Rightarrow> run es s' | Panics \<Rightarrow> Panics | Blocks \<Rightarrow> Blocks)"

section \<open>Notions of the specification\<close>

text \<open>The entry that a joined path names, if there is one.\<close>

definition entry :: "world \<Rightarrow> joined_path \<Rightarrow> node option" where
  "entry w p = (case fs w (fst p) of None \<Rightarrow> None | Some D \<Rightarrow> files D (snd p))"

definition removable :: "world \<Rightarrow> joined_path \<Rightarrow> bool" where
  "removable w p = (case entry w p of None \<Rightarrow> False | Some nd \<Rightarrow> n_remove_err nd = None)"

text \<open>The age of an entry at a sweep: now minus its modification time, as a duration.\<close>

definition age :: "time \<Rightarrow> file_info \<Rightarrow> duration" where
  "age now fi = time_Sub now (ModTime fi)"

text \<open>
  The entries the specification has deleted: not a directory, named with the prefix, and
  strictly older than the threshold.
\<close>

definition eligible :: "duration \<Rightarrow> time \<Rightarrow> file_info \<Rightarrow> bool" where
  "eligible max_age now fi =
     (\<not> IsDir fi \<and> HasPrefix (Name fi) ''session_'' \<and> sint max_age < sint (age now fi))"

definition targets :: "string \<Rightarrow> duration \<Rightarrow> time \<Rightarrow> file_info list \<Rightarrow> joined_path list" where
  "targets d max_age now fis =
     map (\<lambda>fi. filepath_Join d (Name fi)) (filter (eligible max_age now) fis)"

definition open_fails :: "GC \<Rightarrow> world \<Rightarrow> bool" where
  "open_fails gc w = isl (fst (os_Open (dir gc) w))"

definition list_fails :: "GC \<Rightarrow> world \<Rightarrow> bool" where
  "list_fails gc w =
     (case os_Open (dir gc) w of
        (Inl err, w1) \<Rightarrow> False
      | (Inr f, w1) \<Rightarrow> isl (fst (file_Readdir f w1)))"

text \<open>The world in which every removal fails or succeeds as \<open>e\<close> says.\<close>

definition failing_removals :: "(joined_path \<Rightarrow> os_error option) \<Rightarrow> world \<Rightarrow> world" where
  "failing_removals e w =
     w\<lparr>fs := (\<lambda>d. map_option
                  (\<lambda>D. D\<lparr>files := (\<lambda>n. map_option (\<lambda>nd. nd\<lparr>n_remove_err := e (d, n)\<rparr>) (files D n))\<rparr>)
                  (fs w d))\<rparr>"

text \<open>What a caller sees of a sweep: the result, the collector, the calls made on the disk.\<close>

definition observed :: "os_error option \<times> GC \<times> world \<Rightarrow> os_error option \<times> GC \<times> string list \<times> joined_path list" where
  "observed x = (fst x, fst (snd x), opened (snd (snd x)), removals (snd (snd x)))"


text \<open>The schedule handles that exist: the tickers made and not stopped.\<close>

definition live :: "world \<Rightarrow> nat list" where
  "live w = filter (\<lambda>t. \<not> t_stopped (tickers w ! t)) [0..<length (tickers w)]"

definition handle :: "GC \<Rightarrow> nat list" where
  "handle gc = (case ticker gc of None \<Rightarrow> [] | Some t \<Rightarrow> [t])"

definition no_channel_closed :: "world \<Rightarrow> bool" where
  "no_channel_closed w = list_all (\<lambda>t. \<not> chan_closed t) (tickers w)"

section \<open>A session directory\<close>

text \<open>
  A directory \<open>/s\<close>, read at time \<open>2000000000000002000\<close> (two disk calls after the
  clock of \<open>w0\<close>): with the default threshold of \<open>604800000000000\<close> nanoseconds,
  \<open>session_old\<close> is one nanosecond too old and \<open>session_exact\<close> is exactly at the
  threshold.
\<close>

definition dir0 :: directory where
  "dir0 =
     \<lparr>open_err = None, readdir_err = None,
      listing = [''session_locked'', ''session_old'', ''session_exact'', ''session_new'',
                 ''notes_old'', ''session_dir'', ''session_link''],
      files =
        [''session_locked'' \<mapsto> \<lparr>n_mode = ModeRegular, n_modtime = 0, n_remove_err = Some ErrPermission\<rparr>,
         ''session_old'' \<mapsto> \<lparr>n_mode = ModeRegular, n_modtime = 1999395200000001999, n_remove_err = None\<rparr>,
         ''session_exact'' \<mapsto> \<lparr>n_mode = ModeRegular, n_modtime = 1999395200000002000, n_remove_err = None\<rparr>,
         ''session_new'' \<mapsto> \<lparr>n_mode = ModeRegular, n_modtime = 2000000000000000000, n_remove_err = None\<rparr>,
         ''notes_old'' \<mapsto> \<lparr>n_mode = ModeRegular, n_modtime = 0, n_remove_err = None\<rparr>,
         ''session_dir'' \<mapsto> \<lparr>n_mode = ModeDir, n_modtime = 0, n_remove_err = None\<rparr>,
         ''session_link'' \<mapsto> \<lparr>n_mode = ModeSymlink, n_modtime = 0, n_remove_err = None\<rparr>]\<rparr>"

text \<open>A directory that opens but cannot be listed.\<close>

definition dir1 :: directory where
  "dir1 =
     \<lparr>open_err = None, readdir_err = Some ErrPermission,
      listing = [''session_old''],
      files = [''session_old'' \<mapsto> \<lparr>n_mode = ModeRegular, n_modtime = 0, n_remove_err = None\<rparr>]\<rparr>"

definition w0 :: world where
  "w0 = \<lparr>fs = [''/s'' \<mapsto> dir0, ''/unreadable'' \<mapsto> dir1], clock = 2000000000000000000,
         latency = 1000, opened = [], removals = [], tickers = [], goroutines = []\<rparr>"

text \<open>\<open>w0\<close> once \<open>/s\<close> has been opened; \<open>fis0\<close> is the listing of \<open>/s\<close>.\<close>

definition w0_open :: world where
  "w0_open = elapse (w0\<lparr>opened := [''/s'']\<rparr>)"

definition fis0 :: "file_info list" where
  "fis0 =
     [\<lparr>fi_name = ''session_locked'', fi_mode = ModeRegular, fi_modtime = 0\<rparr>,
      \<lparr>fi_name = ''session_old'', fi_mode = ModeRegular, fi_modtime = 1999395200000001999\<rparr>,
      \<lparr>fi_name = ''session_exact'', fi_mode = ModeRegular, fi_modtime = 1999395200000002000\<rparr>,
      \<lparr>fi_name = ''session_new'', fi_mode = ModeRegular, fi_modtime = 2000000000000000000\<rparr>,
      \<lparr>fi_name = ''notes_old'', fi_mode = ModeRegular, fi_modtime = 0\<rparr>,
      \<lparr>fi_name = ''session_dir'', fi_mode = ModeDir, fi_modtime = 0\<rparr>,
      \<lparr>fi_name = ''session_link'', fi_mode = ModeSymlink, fi_modtime = 0\<rparr>]"

text \<open>\<open>w0\<close> after \<open>/unreadable\<close> was opened and its listing has failed.\<close>

definition w0_unreadable :: world where
  "w0_unreadable = elapse (elapse (w0\<lparr>opened := [''/unreadable'']\<rparr>))"

section \<open>A collector between calls\<close>

text \<open>What holds of a collector between two calls: the mutex is free and the tickers that run
  are exactly the one the collector holds, if it holds one.\<close>

definition steady :: "GC \<times> world \<Rightarrow> bool" where
  "steady s = (\<not> mu (fst s) \<and> live (snd s) = handle (fst s))"



text \<open>The five ways the world moves in one event.\<close>

definition world_moves :: "world \<Rightarrow> world \<Rightarrow> bool" where
  "world_moves w w' =
     ((tickers w' = tickers w \<and> goroutines w' = goroutines w) \<or>
      (\<exists>d. tickers w' = tickers w @ [\<lparr>t_period = d, t_stopped = False, chan_closed = False\<rparr>] \<and>
           goroutines w' = goroutines w @ [Spawned]) \<or>
      (\<exists>t. tickers w' = tickers (ticker_Stop t w) \<and> goroutines w' = goroutines w) \<or>
      (\<exists>g t. g < length (goroutines w) \<and> goroutines w ! g = Spawned \<and>
           tickers w' = tickers w \<and> goroutines w' = (goroutines w)[g := Ranging t]) \<or>
      (\<exists>g t. g < length (goroutines w) \<and> goroutines w ! g = Ranging t \<and>
           t < length (tickers w) \<and> chan_closed (tickers w ! t) \<and>
           tickers w' = tickers w \<and> goroutines w' = (goroutines w)[g := Finished]))"

text \<open>The collector on \<open>/s\<close> started, its goroutine receiving; \<open>w0_halted\<close> is that world
  once the collector is stopped, \<open>w0_running_open\<close> once \<open>/s\<close> has been opened in it.\<close>

definition gc_running :: GC where
  "gc_running = New ''/s''\<lparr>ticker := Some 0\<rparr>"

definition w0_running :: world where
  "w0_running =
     w0\<lparr>tickers := [\<lparr>t_period = DefaultInterval, t_stopped = False, chan_closed = False\<rparr>],
        goroutines := [Ranging 0]\<rparr>"

definition w0_halted :: world where
  "w0_halted =
     w0\<lparr>tickers := [\<lparr>t_period = DefaultInterval, t_stopped = True, chan_closed = False\<rparr>],
        goroutines := [Ranging 0]\<rparr>"

definition w0_running_open :: world where
  "w0_running_open = elapse (w0_running\<lparr>opened := [''/s'']\<rparr>)"

section \<open>Facts about the library model and the sweep\<close>

lemmas duration_defs =
  Hour_def Minute_def Second_def Millisecond_def Microsecond_def Nanosecond_def

lemma sint_DefaultMaxAge: "sint DefaultMaxAge = 604800000000000"
  by (simp add: DefaultMaxAge_def duration_defs)

lemma sint_DefaultInterval: "sint DefaultInterval = 3600000000000"
  by (simp add: DefaultInterval_def duration_defs)

text \<open>
  The age of an entry is the plain difference of the two instants whenever that fits a
  duration, which is the case for any two instants less than 292 years apart.
\<close>

lemma sint_time_Sub:
  assumes "minDuration \<le> t - u" and "t - u \<le> maxDuration"
  shows "sint (time_Sub t u) = t - u"
proof -
  have e: "time_Sub t u = word_of_int (t - u)"
    using assms by (simp add: time_Sub_def Let_def)
  have "signed_take_bit 63 (t - u) = t - u"
    using assms
    by (intro signed_take_bit_int_eq_self) (simp_all add: minDuration_def maxDuration_def)
  then have "sint (word_of_int (t - u) :: duration) = t - u"
    by (simp only: sint_sbintrunc') simp
  then show ?thesis unfolding e .
qed

lemma sint_time_Sub_late: "maxDuration < t - u \<Longrightarrow> sint (time_Sub t u) = maxDuration"
  by (simp add: time_Sub_def Let_def maxDuration_def)

lemma age_in_range:
  assumes "minDuration \<le> now - ModTime fi" and "now - ModTime fi \<le> maxDuration"
  shows "sint max_age < sint (age now fi) \<longleftrightarrow> sint max_age < now - ModTime fi"
  using sint_time_Sub [OF assms] by (simp add: age_def)

lemma removals_os_Remove: "removals (snd (os_Remove p w)) = removals w @ [p]"
  by (simp add: os_Remove_def elapse_def Let_def split: option.splits)

lemma entry_os_Remove:
  "entry (snd (os_Remove p w)) q = (if q = p \<and> removable w p then None else entry w q)"
  by (cases p; cases q)
     (auto simp: os_Remove_def elapse_def Let_def entry_def removable_def split: option.splits)

lemma removable_os_Remove:
  "removable (snd (os_Remove p w)) q = (if q = p \<and> removable w p then False else removable w q)"
  by (simp add: removable_def entry_os_Remove)

lemma removals_sweep:
  "removals (sweep gc now fis w) = removals w @ targets (dir gc) (maxAge gc) now fis"
  by (induction fis arbitrary: w)
     (simp_all add: targets_def eligible_def age_def removals_os_Remove)

lemma entry_sweep:
  "entry (sweep gc now fis w) q =
     (if q \<in> set (targets (dir gc) (maxAge gc) now fis) \<and> removable w q then None else entry w q)"
proof (induction fis arbitrary: w)
  case Nil
  then show ?case by (simp add: targets_def)
next
  case (Cons fi fis)
  let ?p = "filepath_Join (dir gc) (Name fi)"
  show ?case
  proof (cases "eligible (maxAge gc) now fi")
    case True
    then have "sweep gc now (fi # fis) w = sweep gc now fis (snd (os_Remove ?p w))"
      by (simp add: eligible_def age_def)
    moreover have "targets (dir gc) (maxAge gc) now (fi # fis) =
        ?p # targets (dir gc) (maxAge gc) now fis"
      using True by (simp add: targets_def)
    ultimately show ?thesis
      by (auto simp: Cons.IH entry_os_Remove removable_os_Remove removable_def)
  next
    case False
    then have "sweep gc now (fi # fis) w = sweep gc now fis w"
      by (auto simp: eligible_def age_def)
    moreover have "targets (dir gc) (maxAge gc) now (fi # fis) =
        targets (dir gc) (maxAge gc) now fis"
      using False by (simp add: targets_def)
    ultimately show ?thesis
      by (simp add: Cons.IH)
  qed
qed

lemma Collect_gc_sweeps:
  assumes "\<not> mu gc" and "os_Open (dir gc) w = (Inr f, w1)" and "file_Readdir f w1 = (Inr fis, w2)"
  shows "Collect_gc gc w = Returns (None, gc, sweep (gc\<lparr>mu := True\<rparr>) (time_Now w2) fis w2)"
  using assms by (simp add: Collect_gc_def mu_Lock_def mu_Unlock_def)

lemma os_Open_world: "snd (os_Open p w) = elapse (w\<lparr>opened := opened w @ [p]\<rparr>)"
  by (simp add: os_Open_def Let_def split: option.splits)

lemma file_Readdir_world: "snd (file_Readdir f w) = elapse w"
  by (simp add: file_Readdir_def split: option.splits)

lemma entry_elapse: "entry (elapse w) p = entry w p"
  by (simp add: entry_def elapse_def)

lemma removals_elapse: "removals (elapse w) = removals w"
  by (simp add: elapse_def)

text \<open>The session directory \<open>/s\<close> of \<open>w0\<close>, as a sweep sees it.\<close>

lemma os_Open_w0: "os_Open ''/s'' w0 = (Inr ''/s'', w0_open)"
  by (simp add: os_Open_def w0_open_def w0_def dir0_def)

lemma file_Readdir_w0: "file_Readdir ''/s'' w0_open = (Inr fis0, elapse w0_open)"
  by (simp add: file_Readdir_def w0_open_def w0_def dir0_def elapse_def fis0_def
      List.map_filter_def stat_def)

lemma time_Now_w0: "time_Now (elapse w0_open) = 2000000000000002000"
  by (simp add: time_Now_def elapse_def w0_open_def w0_def)

lemma targets_fis0:
  "targets ''/s'' DefaultMaxAge 2000000000000002000 fis0 =
     [(''/s'', ''session_locked''), (''/s'', ''session_old''), (''/s'', ''session_link'')]"
  by (simp add: targets_def fis0_def eligible_def age_def IsDir_def Name_def ModTime_def
      HasPrefix_def filepath_Join_def sint_DefaultMaxAge time_Sub_def maxDuration_def minDuration_def)

lemma Collect_gc_open_error:
  assumes "\<not> mu gc" and "os_Open (dir gc) w = (Inl err, w1)"
  shows "Collect_gc gc w = Returns (Some err, gc, w1)"
  using assms by (simp add: Collect_gc_def mu_Lock_def mu_Unlock_def)

lemma Collect_gc_list_error:
  assumes "\<not> mu gc" and "os_Open (dir gc) w = (Inr f, w1)" and "file_Readdir f w1 = (Inl err, w2)"
  shows "Collect_gc gc w = Returns (Some err, gc, w2)"
  using assms by (simp add: Collect_gc_def mu_Lock_def mu_Unlock_def)

lemma Collect_gc_held: "mu gc \<Longrightarrow> Collect_gc gc w = Blocks"
  by (simp add: Collect_gc_def mu_Lock_def)

text \<open>The three ways a sweep on a free mutex goes.\<close>

lemma Collect_gc_cases:
  assumes "\<not> mu gc"
  obtains (open_error) err w1 where "os_Open (dir gc) w = (Inl err, w1)"
      and "Collect_gc gc w = Returns (Some err, gc, w1)"
  | (list_error) f w1 err w2 where "os_Open (dir gc) w = (Inr f, w1)"
      and "file_Readdir f w1 = (Inl err, w2)" and "Collect_gc gc w = Returns (Some err, gc, w2)"
  | (swept) f w1 fis w2 where "os_Open (dir gc) w = (Inr f, w1)"
      and "file_Readdir f w1 = (Inr fis, w2)"
      and "Collect_gc gc w = Returns (None, gc, sweep (gc\<lparr>mu := True\<rparr>) (time_Now w2) fis w2)"
proof (cases "os_Open (dir gc) w")
  case (Pair r w1)
  show ?thesis
  proof (cases r)
    case (Inl err)
    with Pair assms show ?thesis by (auto intro: open_error Collect_gc_open_error)
  next
    case (Inr f)
    show ?thesis
    proof (cases "file_Readdir f w1")
      case p2: (Pair r2 w2)
      show ?thesis
      proof (cases r2)
        case (Inl err)
        with Pair Inr p2 assms show ?thesis by (auto intro: list_error Collect_gc_list_error)
      next
        case i2: (Inr fis)
        with Pair Inr p2 assms show ?thesis by (auto intro: swept Collect_gc_sweeps)
      qed
    qed
  qed
qed

lemma fs_os_Open: "fs (snd (os_Open p w)) = fs w"
  by (simp add: os_Open_world elapse_def)

lemma fs_file_Readdir: "fs (snd (file_Readdir f w)) = fs w"
  by (simp add: file_Readdir_world elapse_def)

lemma removals_os_Open: "removals (snd (os_Open p w)) = removals w"
  by (simp add: os_Open_world elapse_def)

lemma removals_file_Readdir: "removals (snd (file_Readdir f w)) = removals w"
  by (simp add: file_Readdir_world elapse_def)

lemma frame_os_Remove:
  "tickers (snd (os_Remove p w)) = tickers w"
  "goroutines (snd (os_Remove p w)) = goroutines w"
  "opened (snd (os_Remove p w)) = opened w"
  "latency (snd (os_Remove p w)) = latency w"
  by (simp_all add: os_Remove_def elapse_def Let_def split: option.splits)

lemma frame_sweep:
  "tickers (sweep gc now fis w) = tickers w"
  "goroutines (sweep gc now fis w) = goroutines w"
  "opened (sweep gc now fis w) = opened w"
  "latency (sweep gc now fis w) = latency w"
  by (induction fis arbitrary: w) (simp_all add: frame_os_Remove)

lemma frame_elapse:
  "tickers (elapse w) = tickers w"
  "goroutines (elapse w) = goroutines w"
  "opened (elapse w) = opened w"
  "fs (elapse w) = fs w"
  "removals (elapse w) = removals w"
  "latency (elapse w) = latency w"
  by (simp_all add: elapse_def)

lemma frame_Collect_gc:
  assumes "Collect_gc gc w = Returns (r, gc', w')"
  shows "gc' = gc" and "tickers w' = tickers w" and "goroutines w' = goroutines w"
    and "opened w' = opened w @ [dir gc]"
proof -
  have free: "\<not> mu gc" using assms by (auto simp: Collect_gc_held)
  have "gc' = gc \<and> tickers w' = tickers w \<and> goroutines w' = goroutines w \<and>
      opened w' = opened w @ [dir gc]"
    using free
  proof (cases rule: Collect_gc_cases [of gc w])
    case (open_error err w1)
    then show ?thesis
      using assms os_Open_world [of "dir gc" w] by (auto simp: frame_elapse)
  next
    case (list_error f w1 err w2)
    then show ?thesis
      using assms os_Open_world [of "dir gc" w] file_Readdir_world [of f w1]
      by (auto simp: frame_elapse)
  next
    case (swept f w1 fis w2)
    then show ?thesis
      using assms os_Open_world [of "dir gc" w] file_Readdir_world [of f w1]
      by (auto simp: frame_elapse frame_sweep)
  qed
  then show "gc' = gc" and "tickers w' = tickers w" and "goroutines w' = goroutines w"
    and "opened w' = opened w @ [dir gc]" by simp_all
qed

lemma Collect_gc_unreadable:
  "Collect_gc (New ''/unreadable'') w0 = Returns (Some ErrPermission, New ''/unreadable'', w0_unreadable)"
  by (simp add: Collect_gc_def mu_Lock_def mu_Unlock_def New_def os_Open_def file_Readdir_def
      w0_def dir1_def Let_def w0_unreadable_def elapse_def)

lemma Collect_gc_sweep_effect:
  assumes "\<not> mu gc" and "os_Open (dir gc) w = (Inr f, w1)" and "file_Readdir f w1 = (Inr fis, w2)"
  shows "\<exists>gc' w'. Collect_gc gc w = Returns (None, gc', w') \<and>
           removals w' = removals w @ targets (dir gc) (maxAge gc) (time_Now w2) fis \<and>
           (\<forall>p. p \<notin> set (targets (dir gc) (maxAge gc) (time_Now w2) fis) \<longrightarrow> entry w' p = entry w p)"
proof -
  let ?w' = "sweep (gc\<lparr>mu := True\<rparr>) (time_Now w2) fis w2"
  have w1: "w1 = elapse (w\<lparr>opened := opened w @ [dir gc]\<rparr>)"
    using assms(2) os_Open_world [of "dir gc" w] by simp
  have w2: "w2 = elapse w1" using assms(3) file_Readdir_world [of f w1] by simp
  have "Collect_gc gc w = Returns (None, gc, ?w')"
    using assms by (rule Collect_gc_sweeps)
  moreover have "removals ?w' = removals w @ targets (dir gc) (maxAge gc) (time_Now w2) fis"
    by (simp add: removals_sweep) (simp add: w1 w2 removals_elapse)
  moreover have "\<forall>p. p \<notin> set (targets (dir gc) (maxAge gc) (time_Now w2) fis) \<longrightarrow>
      entry ?w' p = entry w p"
    by (simp add: entry_sweep) (simp add: w1 w2 entry_def elapse_def)
  ultimately show ?thesis by blast
qed

lemma os_Open_failing_removals:
  "os_Open p (failing_removals e w) = (fst (os_Open p w), failing_removals e (snd (os_Open p w)))"
  by (simp add: os_Open_def failing_removals_def elapse_def Let_def split: option.splits)

lemma stat_remove_err: "stat n (nd\<lparr>n_remove_err := x\<rparr>) = stat n nd"
  by (simp add: stat_def)

lemma file_Readdir_failing_removals:
  "file_Readdir f (failing_removals e w) =
     (fst (file_Readdir f w), failing_removals e (snd (file_Readdir f w)))"
  by (simp add: file_Readdir_def failing_removals_def elapse_def option.map_comp comp_def
      stat_remove_err split: option.splits)

lemma frame_failing_removals:
  "removals (failing_removals e w) = removals w"
  "opened (failing_removals e w) = opened w"
  "time_Now (failing_removals e w) = time_Now w"
  by (simp_all add: failing_removals_def time_Now_def)

lemma Collect_gc_failing_removals:
  assumes "Collect_gc gc w = Returns x"
  shows "map_outcome observed (Collect_gc gc (failing_removals e w)) = Returns (observed x)"
proof -
  have free: "\<not> mu gc" using assms by (auto simp: Collect_gc_held)
  let ?v = "failing_removals e w"
  show ?thesis
    using free
  proof (cases rule: Collect_gc_cases [of gc w])
    case (open_error err w1)
    then have "os_Open (dir gc) ?v = (Inl err, failing_removals e w1)"
      by (simp add: os_Open_failing_removals)
    from Collect_gc_open_error [OF free this] open_error assms show ?thesis
      by (simp add: observed_def frame_failing_removals)
  next
    case (list_error f w1 err w2)
    then have "os_Open (dir gc) ?v = (Inr f, failing_removals e w1)"
      and "file_Readdir f (failing_removals e w1) = (Inl err, failing_removals e w2)"
      by (simp_all add: os_Open_failing_removals file_Readdir_failing_removals)
    from Collect_gc_list_error [OF free this] list_error assms show ?thesis
      by (simp add: observed_def frame_failing_removals)
  next
    case (swept f w1 fis w2)
    then have "os_Open (dir gc) ?v = (Inr f, failing_removals e w1)"
      and "file_Readdir f (failing_removals e w1) = (Inr fis, failing_removals e w2)"
      by (simp_all add: os_Open_failing_removals file_Readdir_failing_removals)
    from Collect_gc_sweeps [OF free this] swept assms show ?thesis
      by (simp add: observed_def frame_failing_removals removals_sweep frame_sweep)
  qed
qed





section \<open>The sweep\<close>



text \<open>
  Claim C2. \<^verbatim>\<open>Collect\<close> on a free mutex returns, and it returns an error exactly when
  opening the directory fails or listing it fails. After a listing that succeeds it
  returns \<^verbatim>\<open>nil\<close>, having called \<^verbatim>\<open>os.Remove\<close> on every eligible entry of the whole
  listing. Which removals fail changes neither the result nor the calls made: in the world
  where removals fail in any other way \<open>e\<close>, the caller observes the same.
\<close>

theorem Collect_gc_error_iff_listing_fails:
  assumes "\<not> mu gc"
  shows "\<exists>r w'. Collect_gc gc w = Returns (r, gc, w') \<and>
           (r \<noteq> None \<longleftrightarrow> open_fails gc w \<or> list_fails gc w) \<and>
           (\<forall>f w1 fis w2. os_Open (dir gc) w = (Inr f, w1) \<and> file_Readdir f w1 = (Inr fis, w2) \<longrightarrow>
              r = None \<and>
              removals w' = removals w @ targets (dir gc) (maxAge gc) (time_Now w2) fis) \<and>
           (\<forall>e. map_outcome observed (Collect_gc gc (failing_removals e w)) =
              Returns (observed (r, gc, w')))"
  using assms
proof (cases rule: Collect_gc_cases [of gc w])
  case (open_error err w1)
  then show ?thesis
    by (auto simp: open_fails_def list_fails_def intro: Collect_gc_failing_removals)
next
  case (list_error f w1 err w2)
  then show ?thesis
    by (auto simp: open_fails_def list_fails_def intro: Collect_gc_failing_removals)
next
  case (swept f w1 fis w2)
  have "removals (sweep (gc\<lparr>mu := True\<rparr>) (time_Now w2) fis w2) =
      removals w @ targets (dir gc) (maxAge gc) (time_Now w2) fis"
    using swept(1,2) os_Open_world [of "dir gc" w] file_Readdir_world [of f w1]
    by (simp add: removals_sweep) (auto simp: frame_elapse)
  with swept show ?thesis
    by (auto simp: open_fails_def list_fails_def intro: Collect_gc_failing_removals)
qed

theorem Collect_gc_error_iff_listing_fails_witness:
  "\<not> mu (New ''/s'') \<and> \<not> removable w0 (''/s'', ''session_locked'') \<and>
   (\<exists>w'. Collect_gc (New ''/s'') w0 = Returns (None, New ''/s'', w') \<and>
      \<not> open_fails (New ''/s'') w0 \<and> \<not> list_fails (New ''/s'') w0 \<and>
      removals w' =
        [(''/s'', ''session_locked''), (''/s'', ''session_old''), (''/s'', ''session_link'')])"
proof -
  have h1: "\<not> mu (New ''/s'')" by (simp add: New_def)
  have h2: "os_Open (dir (New ''/s'')) w0 = (Inr ''/s'', w0_open)"
    by (simp add: New_def os_Open_w0)
  have h3: "file_Readdir ''/s'' w0_open = (Inr fis0, elapse w0_open)"
    by (rule file_Readdir_w0)
  have t: "targets (dir (New ''/s'')) (maxAge (New ''/s'')) (time_Now (elapse w0_open)) fis0 =
      [(''/s'', ''session_locked''), (''/s'', ''session_old''), (''/s'', ''session_link'')]"
    by (simp add: New_def time_Now_w0 targets_fis0)
  have r: "removals w0 = []" by (simp add: w0_def)
  have l: "\<not> removable w0 (''/s'', ''session_locked'')"
    by (simp add: removable_def entry_def w0_def dir0_def)
  obtain r w' where c: "Collect_gc (New ''/s'') w0 = Returns (r, New ''/s'', w')"
    and e: "r \<noteq> None \<longleftrightarrow> open_fails (New ''/s'') w0 \<or> list_fails (New ''/s'') w0"
    and a: "\<forall>f w1 fis w2. os_Open (dir (New ''/s'')) w0 = (Inr f, w1) \<and>
          file_Readdir f w1 = (Inr fis, w2) \<longrightarrow>
          r = None \<and> removals w' = removals w0 @
            targets (dir (New ''/s'')) (maxAge (New ''/s'')) (time_Now w2) fis"
    using Collect_gc_error_iff_listing_fails [OF h1, of w0] by blast
  from a h2 h3 have "r = None \<and> removals w' = removals w0 @
      targets (dir (New ''/s'')) (maxAge (New ''/s'')) (time_Now (elapse w0_open)) fis0"
    by blast
  with c e h1 l show ?thesis by (simp add: t r)
qed




text \<open>
  Claim C6. When \<^verbatim>\<open>Collect\<close> returns an error, it has called \<^verbatim>\<open>os.Remove\<close> on nothing
  and the file system is as it was before the call.
\<close>

theorem Collect_gc_error_leaves_files:
  assumes "Collect_gc gc w = Returns (Some err, gc', w')"
  shows "fs w' = fs w \<and> removals w' = removals w"
proof -
  have free: "\<not> mu gc" using assms by (auto simp: Collect_gc_held)
  show ?thesis
    using free
  proof (cases rule: Collect_gc_cases [of gc w])
    case (open_error err w1)
    then show ?thesis
      using assms os_Open_world [of "dir gc" w] by (auto simp: frame_elapse)
  next
    case (list_error f w1 err w2)
    then show ?thesis
      using assms os_Open_world [of "dir gc" w] file_Readdir_world [of f w1]
      by (auto simp: frame_elapse)
  next
    case (swept f w1 fis w2)
    then show ?thesis using assms by simp
  qed
qed

theorem Collect_gc_error_leaves_files_witness:
  "Collect_gc (New ''/unreadable'') w0 =
     Returns (Some ErrPermission, New ''/unreadable'', w0_unreadable) \<and>
   fs w0_unreadable = fs w0 \<and> removals w0_unreadable = removals w0 \<and>
   entry w0_unreadable (''/unreadable'', ''session_old'') =
     Some \<lparr>n_mode = ModeRegular, n_modtime = 0, n_remove_err = None\<rparr>"
  using Collect_gc_error_leaves_files [OF Collect_gc_unreadable] Collect_gc_unreadable
  by (simp add: entry_def w0_def dir1_def)

text \<open>
  Claim C10. \<^verbatim>\<open>Collect\<close> changes no field of the collector: whatever it returns, an
  error or \<^verbatim>\<open>nil\<close>, the directory, \<open>maxAge\<close>, \<open>interval\<close> and the ticker are as
  before and the mutex is free again; no ticker or goroutine is made or changed. (On a
  held mutex the call waits and changes nothing.)
\<close>

theorem Collect_gc_keeps_collector:
  "(mu gc \<and> Collect_gc gc w = Blocks) \<or>
   (\<not> mu gc \<and> (\<exists>r w'. Collect_gc gc w = Returns (r, gc, w') \<and>
      tickers w' = tickers w \<and> goroutines w' = goroutines w))"
proof (cases "mu gc")
  case True
  then show ?thesis by (simp add: Collect_gc_held)
next
  case False
  then obtain r w' where c: "Collect_gc gc w = Returns (r, gc, w')"
    by (cases rule: Collect_gc_cases [of gc w]) auto
  from frame_Collect_gc(2,3) [OF c] c False show ?thesis by blast
qed

theorem Collect_gc_keeps_collector_witness:
  "\<not> mu (New ''/s'') \<and>
   (\<exists>r w'. Collect_gc (New ''/s'') w0 = Returns (r, New ''/s'', w') \<and>
      tickers w' = [] \<and> goroutines w' = [])"
  using Collect_gc_keeps_collector [of "New ''/s''" w0]
  by (simp add: New_def w0_def)

section \<open>Facts about starting and stopping\<close>

lemma MaxAge_free: "\<not> mu gc \<Longrightarrow> MaxAge d gc = Returns (gc\<lparr>maxAge := d\<rparr>)"
  by (simp add: MaxAge_def mu_Lock_def mu_Unlock_def)

lemma Interval_free: "\<not> mu gc \<Longrightarrow> Interval d gc = Returns (gc\<lparr>interval := d\<rparr>)"
  by (simp add: Interval_def mu_Lock_def mu_Unlock_def)

lemma Start_running: "\<not> mu gc \<Longrightarrow> ticker gc = Some t \<Longrightarrow> Start gc w = Returns (gc, w)"
  by (simp add: Start_def mu_Lock_def mu_Unlock_def)

lemma Start_panics:
  "\<not> mu gc \<Longrightarrow> ticker gc = None \<Longrightarrow> sint (interval gc) \<le> 0 \<Longrightarrow> Start gc w = Panics"
  by (simp add: Start_def mu_Lock_def time_NewTicker_def)

lemma Start_stopped:
  "\<not> mu gc \<Longrightarrow> ticker gc = None \<Longrightarrow> 0 < sint (interval gc) \<Longrightarrow>
   Start gc w =
     Returns (gc\<lparr>ticker := Some (length (tickers w))\<rparr>,
       w\<lparr>tickers := tickers w @ [\<lparr>t_period = interval gc, t_stopped = False, chan_closed = False\<rparr>],
         goroutines := goroutines w @ [Spawned]\<rparr>)"
  by (simp add: Start_def mu_Lock_def mu_Unlock_def time_NewTicker_def go_loop_def)

lemma Stop_stopped: "\<not> mu gc \<Longrightarrow> ticker gc = None \<Longrightarrow> Stop gc w = Returns (gc, w)"
  by (simp add: Stop_def mu_Lock_def mu_Unlock_def)

lemma Stop_running:
  "\<not> mu gc \<Longrightarrow> ticker gc = Some t \<Longrightarrow>
   Stop gc w = Returns (gc\<lparr>ticker := None\<rparr>, ticker_Stop t w)"
  by (simp add: Stop_def mu_Lock_def mu_Unlock_def)



lemma Collect_gc_dropped:
  "map_outcome snd (Collect_gc gc w) = Returns (gc', w') \<Longrightarrow>
   \<exists>r. Collect_gc gc w = Returns (r, gc', w')"
  by (cases "Collect_gc gc w") auto


lemma steadyI: "\<not> mu gc \<Longrightarrow> live w = handle gc \<Longrightarrow> steady (gc, w)"
  by (simp add: steady_def)







lemma run_Cons_Returns:
  assumes "run (e # es) s = Returns s'"
  obtains s1 where "step e s = Returns s1" and "run es s1 = Returns s'"
  using assms by (cases "step e s") simp_all



lemmas call_defs =
  Start_def Stop_def MaxAge_def Interval_def mu_Lock_def mu_Unlock_def time_NewTicker_def
  go_loop_def ticker_Stop_def resume_def receiving_def


section \<open>The life cycle\<close>



section \<open>Facts about runs\<close>

text \<open>How one event changes the tickers and the goroutines.\<close>

lemma Start_world:
  assumes "Start gc w = Returns (gc', w')"
  shows "(gc' = gc \<and> w' = w) \<or>
         (ticker gc = None \<and> 0 < sint (interval gc) \<and>
          gc' = gc\<lparr>ticker := Some (length (tickers w))\<rparr> \<and>
          w' = w\<lparr>tickers := tickers w @
                  [\<lparr>t_period = interval gc, t_stopped = False, chan_closed = False\<rparr>],
                goroutines := goroutines w @ [Spawned]\<rparr>)"
proof -
  have free: "\<not> mu gc" using assms by (auto simp: Start_def mu_Lock_def)
  show ?thesis
  proof (cases "ticker gc")
    case None
    show ?thesis
    proof (cases "0 < sint (interval gc)")
      case True
      with None assms show ?thesis unfolding Start_stopped [OF free None True] by simp
    next
      case False
      then have "sint (interval gc) \<le> 0" by simp
      from Start_panics [OF free None this] assms show ?thesis by simp
    qed
  next
    case (Some t)
    have "gc' = gc" and "w' = w"
      using assms unfolding Start_running [OF free Some] by simp_all
    then show ?thesis by simp
  qed
qed

lemma Stop_world:
  assumes "Stop gc w = Returns (gc', w')"
  shows "(gc' = gc \<and> w' = w) \<or>
         (\<exists>t. ticker gc = Some t \<and> gc' = gc\<lparr>ticker := None\<rparr> \<and> w' = ticker_Stop t w)"
proof -
  have free: "\<not> mu gc" using assms by (auto simp: Stop_def mu_Lock_def)
  show ?thesis
  proof (cases "ticker gc")
    case None
    have "gc' = gc" and "w' = w"
      using assms unfolding Stop_stopped [OF free None] by simp_all
    then show ?thesis by simp
  next
    case (Some t)
    with assms show ?thesis unfolding Stop_running [OF free Some] by simp
  qed
qed

lemma resume_world:
  assumes "resume g gc w = Returns (gc', w')"
  shows "gc' = gc \<and> tickers w' = tickers w \<and>
         (goroutines w' = goroutines w \<or>
          (g < length (goroutines w) \<and> goroutines w ! g = Spawned \<and>
           (\<exists>t. goroutines w' = (goroutines w)[g := Ranging t])) \<or>
          (g < length (goroutines w) \<and>
           (\<exists>t. goroutines w ! g = Ranging t \<and> t < length (tickers w) \<and>
                chan_closed (tickers w ! t)) \<and>
           goroutines w' = (goroutines w)[g := Finished]))"
  using assms
  by (auto simp: resume_def split: if_splits goroutine.splits option.splits)

lemma MaxAge_Returns: "MaxAge d gc = Returns gc' \<Longrightarrow> \<not> mu gc \<and> gc' = gc\<lparr>maxAge := d\<rparr>"
  by (auto simp: MaxAge_def mu_Lock_def mu_Unlock_def split: if_splits)

lemma Interval_Returns: "Interval d gc = Returns gc' \<Longrightarrow> \<not> mu gc \<and> gc' = gc\<lparr>interval := d\<rparr>"
  by (auto simp: Interval_def mu_Lock_def mu_Unlock_def split: if_splits)

lemma goroutines_ticker_Stop: "goroutines (ticker_Stop t w) = goroutines w"
  by (simp add: ticker_Stop_def)

lemma world_moves_same:
  "tickers w' = tickers w \<Longrightarrow> goroutines w' = goroutines w \<Longrightarrow> world_moves w w'"
  by (simp add: world_moves_def)

lemma step_world_moves:
  assumes "step e (gc, w) = Returns (gc', w')"
  shows "world_moves w w'"
proof (cases e)
  case (Call_MaxAge d)
  with assms have "w' = w" by (cases "MaxAge d gc") simp_all
  then show ?thesis by (simp add: world_moves_def)
next
  case (Call_Interval d)
  with assms have "w' = w" by (cases "Interval d gc") simp_all
  then show ?thesis by (simp add: world_moves_def)
next
  case Call_Start
  with assms have "Start gc w = Returns (gc', w')" by simp
  from Start_world [OF this] show ?thesis
    by (auto simp: world_moves_def)
next
  case Call_Stop
  with assms have "Stop gc w = Returns (gc', w')" by simp
  from Stop_world [OF this] have "(tickers w' = tickers w \<and> goroutines w' = goroutines w) \<or>
      (\<exists>t. tickers w' = tickers (ticker_Stop t w) \<and> goroutines w' = goroutines w)"
    by (auto simp: goroutines_ticker_Stop)
  then show ?thesis unfolding world_moves_def by blast
next
  case Call_Collect
  with assms have "map_outcome snd (Collect_gc gc w) = Returns (gc', w')" by simp
  then obtain r where c: "Collect_gc gc w = Returns (r, gc', w')"
    using Collect_gc_dropped by blast
  from frame_Collect_gc(2,3) [OF c] show ?thesis by (rule world_moves_same)
next
  case (Fire t)
  show ?thesis
  proof (cases "t < length (tickers w) \<and> \<not> t_stopped (tickers w ! t) \<and> receiving t w")
    case True
    with Fire assms have "map_outcome snd (Collect_gc gc w) = Returns (gc', w')" by simp
    then obtain r where c: "Collect_gc gc w = Returns (r, gc', w')"
      using Collect_gc_dropped by blast
    from frame_Collect_gc(2,3) [OF c] show ?thesis by (rule world_moves_same)
  next
    case False
    with Fire assms have "w' = w" by simp_all
    then show ?thesis by (simp add: world_moves_def)
  qed
next
  case (Resume g)
  with assms have "resume g gc w = Returns (gc', w')" by simp
  from resume_world [OF this] show ?thesis
    unfolding world_moves_def by blast
qed

lemma tickers_ticker_Stop:
  "length (tickers (ticker_Stop t w)) = length (tickers w)"
  "u < length (tickers w) \<Longrightarrow>
     t_period (tickers (ticker_Stop t w) ! u) = t_period (tickers w ! u) \<and>
     chan_closed (tickers (ticker_Stop t w) ! u) = chan_closed (tickers w ! u) \<and>
     (t_stopped (tickers w ! u) \<longrightarrow> t_stopped (tickers (ticker_Stop t w) ! u)) \<and>
     (u = t \<longrightarrow> t_stopped (tickers (ticker_Stop t w) ! u))"
  by (simp_all add: ticker_Stop_def nth_list_update)

text \<open>A ticker, once made, keeps its period and its open channel, and stays stopped once it
  is stopped.\<close>

lemma world_moves_ticker:
  assumes "world_moves w w'" and "t < length (tickers w)"
  shows "t < length (tickers w')"
    and "t_period (tickers w' ! t) = t_period (tickers w ! t)"
    and "chan_closed (tickers w' ! t) = chan_closed (tickers w ! t)"
    and "t_stopped (tickers w ! t) \<Longrightarrow> t_stopped (tickers w' ! t)"
  using assms unfolding world_moves_def
  by (auto simp: nth_append tickers_ticker_Stop)

lemma world_moves_no_channel_closed:
  assumes "world_moves w w'" and "no_channel_closed w"
  shows "no_channel_closed w'"
  using assms unfolding world_moves_def no_channel_closed_def list_all_length
  by (auto simp: nth_append tickers_ticker_Stop less_Suc_eq split: if_splits)

lemma world_moves_ranging:
  assumes "world_moves w w'" and "no_channel_closed w"
    and "g < length (goroutines w)" and "goroutines w ! g = Ranging t"
  shows "g < length (goroutines w') \<and> goroutines w' ! g = Ranging t"
  using assms unfolding world_moves_def no_channel_closed_def list_all_length
  by (auto simp: nth_append nth_list_update)

lemma run_ticker:
  assumes "run es (gc, w) = Returns (gc', w')" and "t < length (tickers w)"
  shows "t < length (tickers w') \<and>
         t_period (tickers w' ! t) = t_period (tickers w ! t) \<and>
         chan_closed (tickers w' ! t) = chan_closed (tickers w ! t) \<and>
         (t_stopped (tickers w ! t) \<longrightarrow> t_stopped (tickers w' ! t))"
  using assms
proof (induction es arbitrary: gc w)
  case Nil
  then show ?case by simp
next
  case (Cons e es)
  from Cons.prems(1) obtain s1 where 1: "step e (gc, w) = Returns s1"
    and 2: "run es s1 = Returns (gc', w')"
    by (rule run_Cons_Returns)
  obtain gc1 w1 where s1: "s1 = (gc1, w1)" by (cases s1)
  have m: "world_moves w w1" using 1 unfolding s1 by (rule step_world_moves)
  note k = world_moves_ticker [OF m Cons.prems(2)]
  from Cons.IH [OF 2 [unfolded s1] k(1)] k(2,3,4) show ?case by auto
qed

lemma run_standing:
  assumes "run es (gc, w) = Returns (gc', w')" and "no_channel_closed w"
    and "g < length (goroutines w)" and "goroutines w ! g = Ranging t"
  shows "no_channel_closed w' \<and> g < length (goroutines w') \<and> goroutines w' ! g = Ranging t"
  using assms
proof (induction es arbitrary: gc w)
  case Nil
  then show ?case by simp
next
  case (Cons e es)
  from Cons.prems(1) obtain s1 where 1: "step e (gc, w) = Returns s1"
    and 2: "run es s1 = Returns (gc', w')"
    by (rule run_Cons_Returns)
  obtain gc1 w1 where s1: "s1 = (gc1, w1)" by (cases s1)
  have m: "world_moves w w1" using 1 unfolding s1 by (rule step_world_moves)
  have c: "no_channel_closed w1" using m Cons.prems(2) by (rule world_moves_no_channel_closed)
  have r: "g < length (goroutines w1) \<and> goroutines w1 ! g = Ranging t"
    using m Cons.prems(2,3,4) by (rule world_moves_ranging)
  from Cons.IH [OF 2 [unfolded s1] c] r show ?case by blast
qed

lemma no_channel_closed_nth:
  "no_channel_closed w \<Longrightarrow> t < length (tickers w) \<Longrightarrow> \<not> chan_closed (tickers w ! t)"
  by (simp add: no_channel_closed_def list_all_length)

lemma resume_waits:
  assumes "g < length (goroutines w)" and "goroutines w ! g = Ranging t"
    and "t < length (tickers w) \<longrightarrow> \<not> chan_closed (tickers w ! t)"
  shows "resume g gc w = Returns (gc, w)"
  using assms by (auto simp: resume_def)

lemma run_started:
  "run [Call_Start, Resume 0] (New ''/s'', w0) = Returns (gc_running, w0_running)"
  by (simp add: call_defs New_def w0_def sint_DefaultInterval gc_running_def w0_running_def)

lemma Stop_running_w0:
  "Stop gc_running w0_running = Returns (New ''/s'', w0_halted)"
  by (simp add: call_defs New_def w0_def gc_running_def w0_running_def w0_halted_def)

lemma run_halted:
  "run [Fire 0, Resume 0] (New ''/s'', w0_halted) = Returns (New ''/s'', w0_halted)"
  by (simp add: call_defs New_def w0_def w0_halted_def)

text \<open>
  When \<^verbatim>\<open>Stop\<close> returns before the goroutine of \<^verbatim>\<open>Start\<close> has first run, the goroutine
  finds \<^verbatim>\<open>gc.ticker\<close> \<^verbatim>\<open>nil\<close> and panics.
\<close>

lemma Stop_before_goroutine_runs:
  "run [Call_Start, Call_Stop, Resume 0] (New ''/s'', w0) = Panics"
  by (simp add: call_defs New_def w0_def sint_DefaultInterval)

lemma step_collector:
  assumes "step e (gc, w) = Returns (gc', w')"
  shows "dir gc' = dir gc"
    and "\<forall>d. e \<noteq> Call_MaxAge d \<Longrightarrow> maxAge gc' = maxAge gc"
    and "\<forall>d. e \<noteq> Call_Interval d \<Longrightarrow> interval gc' = interval gc"
proof -
  have "dir gc' = dir gc \<and> ((\<forall>d. e \<noteq> Call_MaxAge d) \<longrightarrow> maxAge gc' = maxAge gc) \<and>
      ((\<forall>d. e \<noteq> Call_Interval d) \<longrightarrow> interval gc' = interval gc)"
  proof (cases e)
    case (Call_MaxAge d)
    with assms obtain g where "MaxAge d gc = Returns g" and "gc' = g"
      by (cases "MaxAge d gc") simp_all
    with MaxAge_Returns [of d gc g] Call_MaxAge show ?thesis by simp
  next
    case (Call_Interval d)
    with assms obtain g where "Interval d gc = Returns g" and "gc' = g"
      by (cases "Interval d gc") simp_all
    with Interval_Returns [of d gc g] Call_Interval show ?thesis by simp
  next
    case Call_Start
    with assms have "Start gc w = Returns (gc', w')" by simp
    from Start_world [OF this] show ?thesis by auto
  next
    case Call_Stop
    with assms have "Stop gc w = Returns (gc', w')" by simp
    from Stop_world [OF this] show ?thesis by auto
  next
    case Call_Collect
    with assms have "map_outcome snd (Collect_gc gc w) = Returns (gc', w')" by simp
    then obtain r where c: "Collect_gc gc w = Returns (r, gc', w')"
      using Collect_gc_dropped by blast
    from frame_Collect_gc(1) [OF c] show ?thesis by simp
  next
    case (Fire t)
    show ?thesis
    proof (cases "t < length (tickers w) \<and> \<not> t_stopped (tickers w ! t) \<and> receiving t w")
      case True
      with Fire assms have "map_outcome snd (Collect_gc gc w) = Returns (gc', w')" by simp
      then obtain r where c: "Collect_gc gc w = Returns (r, gc', w')"
        using Collect_gc_dropped by blast
      from frame_Collect_gc(1) [OF c] show ?thesis by simp
    next
      case False
      with Fire assms have "gc' = gc" by simp
      then show ?thesis by simp
    qed
  next
    case (Resume g)
    with assms have "resume g gc w = Returns (gc', w')" by simp
    from resume_world [OF this] show ?thesis by simp
  qed
  then show "dir gc' = dir gc"
    and "\<forall>d. e \<noteq> Call_MaxAge d \<Longrightarrow> maxAge gc' = maxAge gc"
    and "\<forall>d. e \<noteq> Call_Interval d \<Longrightarrow> interval gc' = interval gc"
    by simp_all
qed

lemma run_maxAge:
  assumes "run es (gc, w) = Returns (gc', w')" and "\<forall>d. Call_MaxAge d \<notin> set es"
  shows "maxAge gc' = maxAge gc"
  using assms
proof (induction es arbitrary: gc w)
  case Nil
  then show ?case by simp
next
  case (Cons e es)
  from Cons.prems(1) obtain s1 where 1: "step e (gc, w) = Returns s1"
    and 2: "run es s1 = Returns (gc', w')"
    by (rule run_Cons_Returns)
  obtain gc1 w1 where s1: "s1 = (gc1, w1)" by (cases s1)
  have "\<forall>d. e \<noteq> Call_MaxAge d" using Cons.prems(2) by auto
  then have "maxAge gc1 = maxAge gc" using step_collector(2) [OF 1 [unfolded s1]] by simp
  moreover have "maxAge gc' = maxAge gc1"
    using Cons.IH [OF 2 [unfolded s1]] Cons.prems(2) by simp
  ultimately show ?case by simp
qed

lemma sweep_by_call:
  assumes "\<not> mu gc" and "os_Open (dir gc) w = (Inr f, w1)" and "file_Readdir f w1 = (Inr fis, w2)"
  shows "\<exists>w'. map_outcome snd (Collect_gc gc w) = Returns (gc, w') \<and>
           removals w' = removals w @ targets (dir gc) (maxAge gc) (time_Now w2) fis"
proof -
  obtain gc' w' where c: "Collect_gc gc w = Returns (None, gc', w')"
    and r: "removals w' = removals w @ targets (dir gc) (maxAge gc) (time_Now w2) fis"
    using Collect_gc_sweep_effect [OF assms] by blast
  have "gc' = gc" using frame_Collect_gc(1) [OF c] .
  with c r show ?thesis by simp
qed

lemma os_Open_w0_running: "os_Open ''/s'' w0_running = (Inr ''/s'', w0_running_open)"
  by (simp add: os_Open_def w0_running_open_def w0_running_def w0_def dir0_def)

lemma file_Readdir_w0_running:
  "file_Readdir ''/s'' w0_running_open = (Inr fis0, elapse w0_running_open)"
  by (simp add: file_Readdir_def w0_running_open_def w0_running_def w0_def dir0_def elapse_def
      fis0_def List.map_filter_def stat_def)

lemma time_Now_w0_running: "time_Now (elapse w0_running_open) = 2000000000000002000"
  by (simp add: time_Now_def elapse_def w0_running_open_def w0_running_def w0_def)

lemma sint_12_Hour: "sint (12 * Hour) = 43200000000000"
  by (simp add: duration_defs)

lemma targets_fis0_12h:
  "targets ''/s'' (12 * Hour) 2000000000000002000 fis0 =
     [(''/s'', ''session_locked''), (''/s'', ''session_old''), (''/s'', ''session_exact''),
      (''/s'', ''session_link'')]"
  by (simp add: targets_def fis0_def eligible_def age_def IsDir_def Name_def ModTime_def
      HasPrefix_def filepath_Join_def sint_12_Hour time_Sub_def maxDuration_def minDuration_def)

lemma sint_30_Minute: "sint (30 * Minute) = 1800000000000"
  by (simp add: duration_defs)

section \<open>Stopping, and the settings\<close>

text \<open>
  Claim C4. After \<^verbatim>\<open>Stop\<close> on a running collector the ticker field is \<^verbatim>\<open>nil\<close>, and at
  every later time the stopped ticker is still stopped and its timer hands no tick to
  anyone: the schedule starts no further sweep. The goroutine is not signalled, though.
  \<^verbatim>\<open>Stop\<close> on a ticker does not close its channel, so the goroutine that receives from it
  is still in its loop after every sequence of later events: it gets no tick and it never
  ends.
\<close>

theorem Stop_leaves_goroutine_waiting:
  assumes "\<not> mu gc" and "ticker gc = Some t" and "t < length (tickers w)"
    and "no_channel_closed w" and "g < length (goroutines w)" and "goroutines w ! g = Ranging t"
  shows "\<exists>gc1 w1. Stop gc w = Returns (gc1, w1) \<and> ticker gc1 = None \<and>
           (\<forall>es gc2 w2. run es (gc1, w1) = Returns (gc2, w2) \<longrightarrow>
              goroutines w2 ! g = Ranging t \<and>
              t_stopped (tickers w2 ! t) \<and> \<not> chan_closed (tickers w2 ! t) \<and>
              step (Fire t) (gc2, w2) = Returns (gc2, w2) \<and>
              step (Resume g) (gc2, w2) = Returns (gc2, w2))"
proof -
  let ?gc1 = "gc\<lparr>ticker := None\<rparr>" and ?w1 = "ticker_Stop t w"
  have s: "Stop gc w = Returns (?gc1, ?w1)" using assms(1,2) by (rule Stop_running)
  have t1: "t < length (tickers ?w1)" and st: "t_stopped (tickers ?w1 ! t)"
    using tickers_ticker_Stop(1) [of t w] tickers_ticker_Stop(2) [of t w t] assms(3)
    by simp_all
  have m: "world_moves w ?w1"
    unfolding world_moves_def by (auto simp: goroutines_ticker_Stop)
  have c1: "no_channel_closed ?w1"
    using m assms(4) by (rule world_moves_no_channel_closed)
  have g1: "g < length (goroutines ?w1)" and r1: "goroutines ?w1 ! g = Ranging t"
    using assms(5,6) by (simp_all add: goroutines_ticker_Stop)
  have later: "goroutines w2 ! g = Ranging t \<and>
      t_stopped (tickers w2 ! t) \<and> \<not> chan_closed (tickers w2 ! t) \<and>
      step (Fire t) (gc2, w2) = Returns (gc2, w2) \<and>
      step (Resume g) (gc2, w2) = Returns (gc2, w2)"
    if run: "run es (?gc1, ?w1) = Returns (gc2, w2)" for es gc2 w2
  proof -
    from run_standing [OF run c1 g1 r1]
    have c2: "no_channel_closed w2" and g2: "g < length (goroutines w2)"
      and r2: "goroutines w2 ! g = Ranging t" by simp_all
    from run_ticker [OF run t1] st
    have t2: "t < length (tickers w2)" and s2: "t_stopped (tickers w2 ! t)" by simp_all
    have n2: "\<not> chan_closed (tickers w2 ! t)" using c2 t2 by (rule no_channel_closed_nth)
    have "step (Fire t) (gc2, w2) = Returns (gc2, w2)" using s2 by simp
    moreover have "step (Resume g) (gc2, w2) = Returns (gc2, w2)"
      using resume_waits [OF g2 r2] n2 by simp
    ultimately show ?thesis using r2 s2 n2 by simp
  qed
  from s later show ?thesis by (intro exI [of _ ?gc1] exI [of _ ?w1]) simp
qed

theorem Stop_leaves_goroutine_waiting_witness:
  "\<not> mu gc_running \<and> ticker gc_running = Some 0 \<and> 0 < length (tickers w0_running) \<and>
   no_channel_closed w0_running \<and> 0 < length (goroutines w0_running) \<and>
   goroutines w0_running ! 0 = Ranging 0 \<and>
   Stop gc_running w0_running = Returns (New ''/s'', w0_halted) \<and>
   run [Fire 0, Resume 0] (New ''/s'', w0_halted) = Returns (New ''/s'', w0_halted) \<and>
   goroutines w0_halted ! 0 = Ranging 0 \<and> t_stopped (tickers w0_halted ! 0) \<and>
   \<not> chan_closed (tickers w0_halted ! 0)"
proof -
  have h1: "\<not> mu gc_running" and h2: "ticker gc_running = Some 0"
    by (simp_all add: gc_running_def New_def)
  have h3: "0 < length (tickers w0_running)" and h4: "no_channel_closed w0_running"
    and h5: "0 < length (goroutines w0_running)" and h6: "goroutines w0_running ! 0 = Ranging 0"
    by (simp_all add: w0_running_def no_channel_closed_def)
  obtain gc1 w1 where s: "Stop gc_running w0_running = Returns (gc1, w1)"
    and a: "\<forall>es gc2 w2. run es (gc1, w1) = Returns (gc2, w2) \<longrightarrow>
        goroutines w2 ! 0 = Ranging 0 \<and>
        t_stopped (tickers w2 ! 0) \<and> \<not> chan_closed (tickers w2 ! 0) \<and>
        step (Fire 0) (gc2, w2) = Returns (gc2, w2) \<and>
        step (Resume 0) (gc2, w2) = Returns (gc2, w2)"
    using Stop_leaves_goroutine_waiting [OF h1 h2 h3 h4 h5 h6] by blast
  from s have e: "gc1 = New ''/s''" "w1 = w0_halted" by (simp_all add: Stop_running_w0)
  from a run_halted have "goroutines w0_halted ! 0 = Ranging 0 \<and>
      t_stopped (tickers w0_halted ! 0) \<and> \<not> chan_closed (tickers w0_halted ! 0)"
    unfolding e by blast
  with h1 h2 h3 h4 h5 h6 Stop_running_w0 run_halted show ?thesis by simp
qed

text \<open>
  Claim C7. \<^verbatim>\<open>MaxAge(d)\<close> changes the threshold and nothing else (the ticker, if one runs,
  stays the same: no restart). From then on a sweep, be it a call of \<^verbatim>\<open>Collect\<close> or the
  one a tick sets off, removes exactly the entries eligible for the threshold \<open>d\<close>; and
  the threshold is still \<open>d\<close> after any events among which there is no other call of
  \<^verbatim>\<open>MaxAge\<close>.
\<close>

theorem MaxAge_takes_effect:
  assumes "\<not> mu gc"
  shows "\<exists>gc1. MaxAge d gc = Returns gc1 \<and> maxAge gc1 = d \<and> dir gc1 = dir gc \<and>
           interval gc1 = interval gc \<and> ticker gc1 = ticker gc \<and>
           (\<forall>w f w1 fis w2.
              os_Open (dir gc) w = (Inr f, w1) \<and> file_Readdir f w1 = (Inr fis, w2) \<longrightarrow>
              (\<exists>w'. step Call_Collect (gc1, w) = Returns (gc1, w') \<and>
                 removals w' = removals w @ targets (dir gc) d (time_Now w2) fis) \<and>
              (\<forall>t. t < length (tickers w) \<and> \<not> t_stopped (tickers w ! t) \<and> receiving t w \<longrightarrow>
                 (\<exists>w'. step (Fire t) (gc1, w) = Returns (gc1, w') \<and>
                    removals w' = removals w @ targets (dir gc) d (time_Now w2) fis))) \<and>
           (\<forall>es w gc2 w2. (\<forall>d'. Call_MaxAge d' \<notin> set es) \<and>
              run es (gc1, w) = Returns (gc2, w2) \<longrightarrow> maxAge gc2 = d)"
proof -
  let ?gc1 = "gc\<lparr>maxAge := d\<rparr>"
  have m: "MaxAge d gc = Returns ?gc1" using assms by (rule MaxAge_free)
  have free: "\<not> mu ?gc1" using assms by simp
  have sw: "(\<exists>w'. step Call_Collect (?gc1, w) = Returns (?gc1, w') \<and>
        removals w' = removals w @ targets (dir gc) d (time_Now w2) fis) \<and>
      (\<forall>t. t < length (tickers w) \<and> \<not> t_stopped (tickers w ! t) \<and> receiving t w \<longrightarrow>
        (\<exists>w'. step (Fire t) (?gc1, w) = Returns (?gc1, w') \<and>
           removals w' = removals w @ targets (dir gc) d (time_Now w2) fis))"
    if "os_Open (dir gc) w = (Inr f, w1)" and "file_Readdir f w1 = (Inr fis, w2)"
    for w f w1 fis w2
  proof -
    have o: "os_Open (dir ?gc1) w = (Inr f, w1)" using that(1) by simp
    from sweep_by_call [OF free o that(2)]
    obtain w' where "map_outcome snd (Collect_gc ?gc1 w) = Returns (?gc1, w')"
      and "removals w' = removals w @ targets (dir gc) d (time_Now w2) fis"
      by auto
    then show ?thesis by auto
  qed
  have keep: "maxAge gc2 = d"
    if "\<forall>d'. Call_MaxAge d' \<notin> set es" and "run es (?gc1, w) = Returns (gc2, w2)"
    for es w gc2 w2
    using run_maxAge [OF that(2) that(1)] by simp
  show ?thesis
    apply (rule exI [of _ ?gc1])
    apply (intro conjI)
          apply (rule m)
         apply simp
        apply simp
       apply simp
      apply simp
    using sw apply blast
    using keep apply blast
    done
qed

theorem MaxAge_takes_effect_witness:
  "\<not> mu gc_running \<and>
   (\<exists>gc1. MaxAge (12 * Hour) gc_running = Returns gc1 \<and> maxAge gc1 = 12 * Hour \<and>
      ticker gc1 = Some 0 \<and>
      (\<exists>w'. step Call_Collect (gc1, w0_running) = Returns (gc1, w') \<and>
         removals w' =
           [(''/s'', ''session_locked''), (''/s'', ''session_old''), (''/s'', ''session_exact''),
            (''/s'', ''session_link'')]) \<and>
      (\<exists>w'. step (Fire 0) (gc1, w0_running) = Returns (gc1, w') \<and>
         removals w' =
           [(''/s'', ''session_locked''), (''/s'', ''session_old''), (''/s'', ''session_exact''),
            (''/s'', ''session_link'')]))"
proof -
  let ?ps = "[(''/s'', ''session_locked''), (''/s'', ''session_old''),
    (''/s'', ''session_exact''), (''/s'', ''session_link'')]"
  have h: "\<not> mu gc_running" and d: "dir gc_running = ''/s''" and k: "ticker gc_running = Some 0"
    by (simp_all add: gc_running_def New_def)
  have o: "os_Open (dir gc_running) w0_running = (Inr ''/s'', w0_running_open)"
    unfolding d by (rule os_Open_w0_running)
  have f: "0 < length (tickers w0_running) \<and> \<not> t_stopped (tickers w0_running ! 0) \<and>
      receiving 0 w0_running"
    by (simp add: w0_running_def receiving_def)
  have r: "removals w0_running = []" by (simp add: w0_running_def w0_def)
  have t: "targets (dir gc_running) (12 * Hour) (time_Now (elapse w0_running_open)) fis0 = ?ps"
    unfolding d time_Now_w0_running by (rule targets_fis0_12h)
  obtain gc1 where 1: "MaxAge (12 * Hour) gc_running = Returns gc1"
    and 2: "maxAge gc1 = 12 * Hour" and 3: "ticker gc1 = ticker gc_running"
    and 4: "\<forall>w f w1 fis w2.
        os_Open (dir gc_running) w = (Inr f, w1) \<and> file_Readdir f w1 = (Inr fis, w2) \<longrightarrow>
        (\<exists>w'. step Call_Collect (gc1, w) = Returns (gc1, w') \<and>
           removals w' = removals w @ targets (dir gc_running) (12 * Hour) (time_Now w2) fis) \<and>
        (\<forall>t. t < length (tickers w) \<and> \<not> t_stopped (tickers w ! t) \<and> receiving t w \<longrightarrow>
           (\<exists>w'. step (Fire t) (gc1, w) = Returns (gc1, w') \<and>
              removals w' = removals w @
                targets (dir gc_running) (12 * Hour) (time_Now w2) fis))"
    using MaxAge_takes_effect [OF h, of "12 * Hour"] by blast
  from 4 o file_Readdir_w0_running
  have 5: "(\<exists>w'. step Call_Collect (gc1, w0_running) = Returns (gc1, w') \<and>
        removals w' = removals w0_running @
          targets (dir gc_running) (12 * Hour) (time_Now (elapse w0_running_open)) fis0) \<and>
      (\<forall>t. t < length (tickers w0_running) \<and> \<not> t_stopped (tickers w0_running ! t) \<and>
          receiving t w0_running \<longrightarrow>
        (\<exists>w'. step (Fire t) (gc1, w0_running) = Returns (gc1, w') \<and>
           removals w' = removals w0_running @
             targets (dir gc_running) (12 * Hour) (time_Now (elapse w0_running_open)) fis0))"
    by blast
  then have 6: "\<exists>w'. step Call_Collect (gc1, w0_running) = Returns (gc1, w') \<and> removals w' = ?ps"
    unfolding t r by simp
  from 5 f have 7: "\<exists>w'. step (Fire 0) (gc1, w0_running) = Returns (gc1, w') \<and> removals w' = ?ps"
    unfolding t r by simp
  from h 1 2 3 k 6 7 show ?thesis by simp
qed

text \<open>
  Claim C8. \<^verbatim>\<open>Start\<close> on a stopped collector makes a ticker whose period is the interval
  at that moment. \<^verbatim>\<open>Interval(d)\<close> on the running collector changes the field only: the
  collector keeps its ticker, and that ticker has the old period after any later events.
  After \<^verbatim>\<open>Stop\<close>, the next \<^verbatim>\<open>Start\<close> makes another ticker, with period \<open>d\<close>. (\<^verbatim>\<open>Start\<close>
  returns only for a positive interval: \<^verbatim>\<open>time.NewTicker\<close> panics otherwise.)
\<close>

theorem Interval_read_at_Start:
  assumes "\<not> mu gc" and "ticker gc = None" and "0 < sint (interval gc)"
  shows "\<exists>gc1 w1 t. Start gc w = Returns (gc1, w1) \<and> ticker gc1 = Some t \<and>
           t < length (tickers w1) \<and> \<not> t_stopped (tickers w1 ! t) \<and>
           t_period (tickers w1 ! t) = interval gc \<and>
           (\<exists>gc2. Interval d gc1 = Returns gc2 \<and> interval gc2 = d \<and> ticker gc2 = Some t \<and>
              (\<forall>es gc3 w3. run es (gc2, w1) = Returns (gc3, w3) \<longrightarrow>
                 t_period (tickers w3 ! t) = interval gc) \<and>
              (0 < sint d \<longrightarrow>
                 (\<exists>gc3 w3 gc4 w4 t'. Stop gc2 w1 = Returns (gc3, w3) \<and>
                    Start gc3 w3 = Returns (gc4, w4) \<and> ticker gc4 = Some t' \<and> t' \<noteq> t \<and>
                    t_period (tickers w4 ! t') = d \<and>
                    t_period (tickers w4 ! t) = interval gc)))"
proof -
  let ?t = "length (tickers w)"
  let ?gc1 = "gc\<lparr>ticker := Some ?t\<rparr>"
  let ?w1 = "w\<lparr>tickers := tickers w @
        [\<lparr>t_period = interval gc, t_stopped = False, chan_closed = False\<rparr>],
      goroutines := goroutines w @ [Spawned]\<rparr>"
  let ?gc2 = "?gc1\<lparr>interval := d\<rparr>"
  have s: "Start gc w = Returns (?gc1, ?w1)" using assms by (rule Start_stopped)
  have t1: "?t < length (tickers ?w1)" and p1: "t_period (tickers ?w1 ! ?t) = interval gc"
    and n1: "\<not> t_stopped (tickers ?w1 ! ?t)"
    by simp_all
  have free1: "\<not> mu ?gc1" using assms(1) by simp
  have i: "Interval d ?gc1 = Returns ?gc2" using free1 by (rule Interval_free)
  have free2: "\<not> mu ?gc2" and k2: "ticker ?gc2 = Some ?t" using assms(1) by simp_all
  have later: "t_period (tickers w3 ! ?t) = interval gc"
    if "run es (?gc2, ?w1) = Returns (gc3, w3)" for es gc3 w3
    using run_ticker [OF that t1] p1 by simp
  have again: "\<exists>gc3 w3 gc4 w4 t'. Stop ?gc2 ?w1 = Returns (gc3, w3) \<and>
      Start gc3 w3 = Returns (gc4, w4) \<and> ticker gc4 = Some t' \<and> t' \<noteq> ?t \<and>
      t_period (tickers w4 ! t') = d \<and> t_period (tickers w4 ! ?t) = interval gc"
    if pos: "0 < sint d"
  proof -
    let ?gc3 = "?gc2\<lparr>ticker := None\<rparr>" and ?w3 = "ticker_Stop ?t ?w1"
    let ?t' = "length (tickers ?w3)"
    let ?gc4 = "?gc3\<lparr>ticker := Some ?t'\<rparr>"
    let ?w4 = "?w3\<lparr>tickers := tickers ?w3 @
          [\<lparr>t_period = interval ?gc3, t_stopped = False, chan_closed = False\<rparr>],
        goroutines := goroutines ?w3 @ [Spawned]\<rparr>"
    have st: "Stop ?gc2 ?w1 = Returns (?gc3, ?w3)" using free2 k2 by (rule Stop_running)
    have free3: "\<not> mu ?gc3" and k3: "ticker ?gc3 = None" and i3: "0 < sint (interval ?gc3)"
      using assms(1) pos by simp_all
    have s4: "Start ?gc3 ?w3 = Returns (?gc4, ?w4)" using free3 k3 i3 by (rule Start_stopped)
    have l3: "?t' = Suc ?t" by (simp add: tickers_ticker_Stop(1))
    have p3: "t_period (tickers ?w3 ! ?t) = interval gc"
      using tickers_ticker_Stop(2) [OF t1, of ?t] p1 by simp
    have "t_period (tickers ?w4 ! ?t') = d" by simp
    moreover have "t_period (tickers ?w4 ! ?t) = interval gc"
      using p3 l3 by (simp add: nth_append)
    moreover have "?t' \<noteq> ?t" using l3 by simp
    moreover have "ticker ?gc4 = Some ?t'" by simp
    ultimately show ?thesis using st s4 by blast
  qed
  show ?thesis
    apply (rule exI [of _ ?gc1], rule exI [of _ ?w1], rule exI [of _ ?t])
    apply (intro conjI)
         apply (rule s)
        apply simp
       apply (rule t1)
      apply (rule n1)
     apply (rule p1)
    apply (rule exI [of _ ?gc2])
    apply (intro conjI)
       apply (rule i)
      apply simp
     apply simp
    using later apply blast
    using again apply blast
    done
qed

theorem Interval_read_at_Start_witness:
  "\<not> mu (New ''/s'') \<and> ticker (New ''/s'') = None \<and> 0 < sint (interval (New ''/s'')) \<and>
   (\<exists>gc1 w1. Start (New ''/s'') w0 = Returns (gc1, w1) \<and> ticker gc1 = Some 0 \<and>
      t_period (tickers w1 ! 0) = 1 * Hour \<and>
      (\<exists>gc2. Interval (30 * Minute) gc1 = Returns gc2 \<and> interval gc2 = 30 * Minute \<and>
         ticker gc2 = Some 0 \<and>
         (\<exists>gc3 w3 gc4 w4 t'. Stop gc2 w1 = Returns (gc3, w3) \<and>
            Start gc3 w3 = Returns (gc4, w4) \<and> ticker gc4 = Some t' \<and> t' \<noteq> 0 \<and>
            t_period (tickers w4 ! t') = 30 * Minute \<and>
            t_period (tickers w4 ! 0) = 1 * Hour)))"
proof -
  have h1: "\<not> mu (New ''/s'')" and h2: "ticker (New ''/s'') = None"
    and h3: "0 < sint (interval (New ''/s''))"
    by (simp_all add: New_def sint_DefaultInterval)
  have i: "interval (New ''/s'') = 1 * Hour" by (simp add: New_def DefaultInterval_def)
  have p: "0 < sint (30 * Minute :: duration)" by (simp add: sint_30_Minute)
  obtain gc1 w1 t where 1: "Start (New ''/s'') w0 = Returns (gc1, w1)"
    and 2: "ticker gc1 = Some t" and 3: "t_period (tickers w1 ! t) = interval (New ''/s'')"
    and 4: "\<exists>gc2. Interval (30 * Minute) gc1 = Returns gc2 \<and> interval gc2 = 30 * Minute \<and>
        ticker gc2 = Some t \<and>
        (\<forall>es gc3 w3. run es (gc2, w1) = Returns (gc3, w3) \<longrightarrow>
           t_period (tickers w3 ! t) = interval (New ''/s'')) \<and>
        (0 < sint (30 * Minute :: duration) \<longrightarrow>
           (\<exists>gc3 w3 gc4 w4 t'. Stop gc2 w1 = Returns (gc3, w3) \<and>
              Start gc3 w3 = Returns (gc4, w4) \<and> ticker gc4 = Some t' \<and> t' \<noteq> t \<and>
              t_period (tickers w4 ! t') = 30 * Minute \<and>
              t_period (tickers w4 ! t) = interval (New ''/s'')))"
    using Interval_read_at_Start [OF h1 h2 h3, of w0 "30 * Minute"] by blast
  have "Start (New ''/s'') w0 =
      Returns (New ''/s''\<lparr>ticker := Some (length (tickers w0))\<rparr>,
        w0\<lparr>tickers := tickers w0 @
            [\<lparr>t_period = interval (New ''/s''), t_stopped = False, chan_closed = False\<rparr>],
          goroutines := goroutines w0 @ [Spawned]\<rparr>)"
    using h1 h2 h3 by (rule Start_stopped)
  with 1 have "ticker gc1 = Some (length (tickers w0))" by auto
  then have t: "t = 0" using 2 by (simp add: w0_def)
  from 4 p obtain gc2 where 5: "Interval (30 * Minute) gc1 = Returns gc2"
    and 6: "interval gc2 = 30 * Minute" and 7: "ticker gc2 = Some t"
    and 8: "\<exists>gc3 w3 gc4 w4 t'. Stop gc2 w1 = Returns (gc3, w3) \<and>
        Start gc3 w3 = Returns (gc4, w4) \<and> ticker gc4 = Some t' \<and> t' \<noteq> t \<and>
        t_period (tickers w4 ! t') = 30 * Minute \<and>
        t_period (tickers w4 ! t) = interval (New ''/s'')"
    by blast
  from 1 2 3 5 6 7 8 have "\<exists>gc1 w1. Start (New ''/s'') w0 = Returns (gc1, w1) \<and>
      ticker gc1 = Some 0 \<and> t_period (tickers w1 ! 0) = 1 * Hour \<and>
      (\<exists>gc2. Interval (30 * Minute) gc1 = Returns gc2 \<and> interval gc2 = 30 * Minute \<and>
         ticker gc2 = Some 0 \<and>
         (\<exists>gc3 w3 gc4 w4 t'. Stop gc2 w1 = Returns (gc3, w3) \<and>
            Start gc3 w3 = Returns (gc4, w4) \<and> ticker gc4 = Some t' \<and> t' \<noteq> 0 \<and>
            t_period (tickers w4 ! t') = 30 * Minute \<and>
            t_period (tickers w4 ! 0) = 1 * Hour))"
    unfolding t i by blast
  with h1 h2 h3 show ?thesis by blast
qed

text \<open>
  Claim C9. \<^verbatim>\<open>New(dir)\<close> is a function of \<open>dir\<close> alone: it neither reads nor changes the
  world. The collector it returns is stopped (no ticker, the mutex free), has the directory
  \<open>dir\<close>, a \<open>maxAge\<close> of seven days, that is 168 hours or \<open>604800000000000\<close> nanoseconds,
  and an interval of one hour, \<open>3600000000000\<close> nanoseconds.
\<close>

theorem New_defaults:
  "New d = \<lparr>mu = False, dir = d, maxAge = 168 * Hour, interval = Hour, ticker = None\<rparr> \<and>
   dir (New d) = d \<and> ticker (New d) = None \<and> handle (New d) = [] \<and>
   maxAge (New d) = 7 * 24 * Hour \<and> sint (maxAge (New d)) = 604800000000000 \<and>
   interval (New d) = 1 * Hour \<and> sint (interval (New d)) = 3600000000000 \<and>
   sint Hour = 3600 * 1000000000"
  by (simp add: New_def DefaultMaxAge_def DefaultInterval_def handle_def duration_defs)

theorem New_defaults_witness:
  "dir (New ''/s'') = ''/s'' \<and> ticker (New ''/s'') = None \<and>
   sint (maxAge (New ''/s'')) = 604800000000000 \<and>
   sint (interval (New ''/s'')) = 3600000000000"
  using New_defaults [of "''/s''"] by blast

end
